theory Spec2Isabelle
  imports Main "HOL-Library.Sublist"
begin

section \<open>Text\<close>

text \<open>
  The module starts with \<^verbatim>\<open>from __future__ import unicode_literals\<close> and reads its
  files with an explicit encoding, so every string it handles is a sequence of Unicode
  code points. A code point is a natural number here; an ASCII literal of the source is
  written \<open>ustr ''...''\<close>.
\<close>

type_synonym codepoint = nat
type_synonym ustring = "codepoint list"

abbreviation (input) ustr :: "string \<Rightarrow> ustring" where
  "ustr s \<equiv> map of_char s"

text \<open>The en dash \<^verbatim>\<open>u'\\u2013'\<close> of the suffix list, one code point.\<close>

definition en_dash :: codepoint where
  "en_dash = 8211"

text \<open>Python's \<^verbatim>\<open>sub in s\<close> on strings: \<open>sub\<close> occurs in \<open>s\<close> as a contiguous run.\<close>

fun py_in :: "'a list \<Rightarrow> 'a list \<Rightarrow> bool" where
  "py_in sub [] = (sub = [])"
| "py_in sub (x # xs) = (prefix sub (x # xs) \<or> py_in sub xs)"

text \<open>
  Python's \<^verbatim>\<open>s.split(sep)\<close> for a separator of one character: the pieces between the
  separators, in order; the result is never the empty list.
\<close>

fun py_split :: "'a \<Rightarrow> 'a list \<Rightarrow> 'a list list" where
  "py_split sep [] = [[]]"
| "py_split sep (x # xs) =
     (if x = sep then [] # py_split sep xs
      else (case py_split sep xs of
              [] \<Rightarrow> [[x]]
            | p # ps \<Rightarrow> (x # p) # ps))"

section \<open>Matchword Compiler\<close>

text \<open>
  \<^verbatim>\<open>
  def generate_matchwords(word):
      words = [word, word + 'e', word + 'en', word + 'es', word + 's']
      res = []
      for w in words:
          prefix = ['(', '[', '"', "'", ' ']
          suffix = [')', ']', ';', ',', '.', ':', '-', u'\\u2013', '"', "'", ' ']
          comb = list(itertools.product(prefix, suffix))
          res += [c[0] + w + c[1] for c in comb]
      return res
  \<close>
\<close>

text \<open>
  \<open>words\<close>, \<open>prefix_list\<close> and \<open>suffix_list\<close> are the locals \<^verbatim>\<open>words\<close>, \<^verbatim>\<open>prefix\<close> and
  \<^verbatim>\<open>suffix\<close>; the double quote is code point 34 and the single quote 39.
  \<open>List.product\<close> lists the pairs in the order of \<^verbatim>\<open>itertools.product\<close>.
\<close>

definition words :: "ustring \<Rightarrow> ustring list" where
  "words word =
     [word, word @ ustr ''e'', word @ ustr ''en'', word @ ustr ''es'', word @ ustr ''s'']"

definition prefix_list :: "ustring list" where
  "prefix_list = [ustr ''('', ustr ''['', [34], [39], ustr '' '']"

definition suffix_list :: "ustring list" where
  "suffix_list = [ustr '')'', ustr '']'', ustr '';'', ustr '','', ustr ''.'', ustr '':'',
                 ustr ''-'', [en_dash], [34], [39], ustr '' '']"

definition bracketed :: "ustring \<Rightarrow> ustring list" where
  "bracketed w = map (\<lambda>c. fst c @ w @ snd c) (List.product prefix_list suffix_list)"

definition generate_matchwords :: "ustring \<Rightarrow> ustring list" where
  "generate_matchwords word = concat (map bracketed (words word))"

section \<open>URL Canonicalizer\<close>

text \<open>
  \<^verbatim>\<open>
  def decruft_url(url):
      url = url.split('?')[0].split('#')[0]
      return url
  \<close>
  \<open>py_split\<close> never returns the empty list (\<open>py_split_nonempty\<close> below), so the index
  \<^verbatim>\<open>[0]\<close> never raises and is \<open>hd\<close>.
\<close>

definition question_mark :: codepoint where
  "question_mark = of_char CHR ''?''"

definition hash_sign :: codepoint where
  "hash_sign = of_char CHR ''#''"

definition decruft_url :: "ustring \<Rightarrow> ustring" where
  "decruft_url url = hd (py_split hash_sign (hd (py_split question_mark url)))"

section \<open>Articles and the environment\<close>

text \<open>
  Every exception the modelled code can meet. The requests to the network, the optional
  \<^verbatim>\<open>blocklist\<close> module and the Twitter client are capabilities of the environment; each
  returns its result or the exception it raises.
\<close>

datatype error =
  RequestError | ExtractionError | BlocklistError | AttributeError
  | TypeError | IntegrityError | TwythonError

text \<open>
  \<^verbatim>\<open>
  class Article:
      def __init__(self, outlet, title, url, delicate=False, redirects=False):
          self.outlet = outlet
          self.title = title
          self.url = url
          self.delicate = delicate
          self.redirects = redirects
          self.canonicalize_url()

          self.matching_grafs = []
          self.imgs = []
          self.tweeted = False
  \<close>
  \<open>plaintext\<close> is the attribute that \<^verbatim>\<open>clean\<close> sets; it is absent before.
\<close>

record 'img article =
  outlet :: ustring
  title :: ustring
  url :: ustring
  delicate :: bool
  redirects :: bool
  plaintext :: "ustring option"
  matching_grafs :: "ustring list"
  imgs :: "'img list"
  tweeted :: bool

text \<open>
  The globals of the module (\<^verbatim>\<open>ua\<close>, \<^verbatim>\<open>matchwords\<close>, \<^verbatim>\<open>matchwords_case_sensitive\<close>,
  \<^verbatim>\<open>blocklist_words\<close>, \<^verbatim>\<open>blocklist_loaded\<close> with \<^verbatim>\<open>blocklist\<close>, \<^verbatim>\<open>TEST_MODE\<close>) and the
  external capabilities:
  \<^item> \<open>lower\<close> is \<^verbatim>\<open>unicode.lower\<close>;
  \<^item> \<open>head_location\<close> is \<^verbatim>\<open>requests.head(url, allow_redirects=True, timeout=30)\<close>
    followed by the choice between the \<^verbatim>\<open>location\<close> header and \<^verbatim>\<open>res.url\<close>;
  \<^item> \<open>fetch_plaintext\<close> is \<^verbatim>\<open>requests.get\<close>, readability and html2text, from the URL
    to the plaintext;
  \<^item> \<open>render_img\<close> is the rendering of a paragraph with the \<^verbatim>\<open>square\<close> flag;
  \<^item> \<open>upload_media\<close> and \<open>update_status\<close> are the two calls of the Twitter client; a
    status id (\<^verbatim>\<open>id_str\<close>, a decimal string) is the integer it denotes;
  \<^item> \<open>feed_entries\<close> is \<^verbatim>\<open>feedparser.parse(url)['entries']\<close>, as (title, link) pairs.

  Each capability answers as a function of its arguments, and the rendering always
  returns an image; the type of images is left open.
\<close>

record 'img env =
  ua :: ustring
  matchwords :: "ustring list"
  matchwords_case_sensitive :: "ustring list"
  blocklist_words :: "ustring list option"
  blocklist :: "('img article \<Rightarrow> error + bool) option"
  test_mode :: bool
  lower :: "ustring \<Rightarrow> ustring"
  head_location :: "ustring \<Rightarrow> error + ustring"
  fetch_plaintext :: "ustring \<Rightarrow> error + ustring"
  render_img :: "ustring \<Rightarrow> bool \<Rightarrow> 'img"
  upload_media :: "'img \<Rightarrow> error + nat"
  update_status :: "ustring \<Rightarrow> nat list \<Rightarrow> int option \<Rightarrow> error + int"
  feed_entries :: "ustring \<Rightarrow> (ustring \<times> ustring) list"

text \<open>
  \<^verbatim>\<open>
  def canonicalize_url(self):
      if self.redirects:
          res = requests.head(self.url, allow_redirects=True, timeout=30)
          self.url = res.headers['location'] if 'location' in res.headers \
              else res.url
      if not self.delicate:
          self.url = decruft_url(self.url)
  \<close>
\<close>

definition canonicalize_url :: "'img env \<Rightarrow> 'img article \<Rightarrow> error + 'img article" where
  "canonicalize_url env a =
     (case (if redirects a then head_location env (url a) else Inr (url a)) of
        Inl e \<Rightarrow> Inl e
      | Inr u \<Rightarrow> Inr (a\<lparr>url := (if \<not> delicate a then decruft_url u else u)\<rparr>))"

definition Article ::
  "'img env \<Rightarrow> ustring \<Rightarrow> ustring \<Rightarrow> ustring \<Rightarrow> bool \<Rightarrow> bool \<Rightarrow> error + 'img article" where
  "Article env outlet' title' url' delicate' redirects' =
     canonicalize_url env
       \<lparr>outlet = outlet', title = title', url = url', delicate = delicate',
        redirects = redirects', plaintext = None, matching_grafs = [], imgs = [],
        tweeted = False\<rparr>"

section \<open>Match Evaluator\<close>

text \<open>
  \<^verbatim>\<open>
  def clean(self):
      self.res = requests.get(self.url, headers={'User-Agent':ua}, timeout=30)
      doc = Document(self.res.text)
      ...
      self.plaintext = h.handle(doc.summary())
  \<close>
\<close>

definition clean :: "'img env \<Rightarrow> 'img article \<Rightarrow> error + 'img article" where
  "clean env a =
     (case fetch_plaintext env (url a) of
        Inl e \<Rightarrow> Inl e
      | Inr text \<Rightarrow> Inr (a\<lparr>plaintext := Some text\<rparr>))"

definition newline :: codepoint where
  "newline = 10"

text \<open>
  \<^verbatim>\<open>any(word.lower() in self.plaintext.lower() for word in blocklist_words)\<close>,
  under the guard \<^verbatim>\<open>if not blocklist_words is None\<close>.
\<close>

definition blocked_by_words :: "'img env \<Rightarrow> ustring \<Rightarrow> bool" where
  "blocked_by_words env text =
     (case blocklist_words env of
        None \<Rightarrow> False
      | Some ws \<Rightarrow> list_ex (\<lambda>word. py_in (lower env word) (lower env text)) ws)"

text \<open>
  \<^verbatim>\<open>
  any(word.lower() in graf.lower() for word in matchwords) or \
      any(word in graf for word in matchwords_case_sensitive)
  \<close>
\<close>

definition graf_matches :: "'img env \<Rightarrow> ustring \<Rightarrow> bool" where
  "graf_matches env graf \<longleftrightarrow>
     list_ex (\<lambda>word. py_in (lower env word) (lower env graf)) (matchwords env) \<or>
     list_ex (\<lambda>word. py_in word graf) (matchwords_case_sensitive env)"

text \<open>
  \<^verbatim>\<open>
  def check_for_matches(self):
      self.clean()
      if ua in self.plaintext:
          return
      if not blocklist_words is None:
          if any(word.lower() in self.plaintext.lower() for word in blocklist_words):
              return
      plaintext_grafs = self.plaintext.split('\n')
      if blocklist_loaded and blocklist.check(self):
          pass
      else:
          for graf in plaintext_grafs:
              if (any(...) or any(...)):
                  self.matching_grafs.append(graf)
  \<close>
  The method mutates the article and returns nothing; the model returns the exception
  raised, if any, with the article as it is at that moment.
\<close>

definition check_for_matches ::
  "'img env \<Rightarrow> 'img article \<Rightarrow> error option \<times> 'img article" where
  "check_for_matches env a =
     (case clean env a of
        Inl e \<Rightarrow> (Some e, a)
      | Inr a1 \<Rightarrow>
          (case plaintext a1 of
             None \<Rightarrow> (Some AttributeError, a1)
           | Some text \<Rightarrow>
               if py_in (ua env) text then (None, a1)
               else if blocked_by_words env text then (None, a1)
               else
                 let plaintext_grafs = py_split newline text in
                 (case (case blocklist env of
                          None \<Rightarrow> Inr False
                        | Some check \<Rightarrow> check a1) of
                    Inl e \<Rightarrow> (Some e, a1)
                  | Inr True \<Rightarrow> (None, a1)
                  | Inr False \<Rightarrow>
                      (None, a1\<lparr>matching_grafs :=
                                   matching_grafs a1 @
                                   filter (graf_matches env) plaintext_grafs\<rparr>))))"

section \<open>Notification\<close>

text \<open>
  The upload loop of \<^verbatim>\<open>tweet\<close>: an image whose upload raises \<^verbatim>\<open>TwythonError\<close> is
  left out; any other exception leaves the loop.
\<close>

fun upload_all :: "'img env \<Rightarrow> 'img list \<Rightarrow> nat list \<Rightarrow> error + nat list" where
  "upload_all env [] media_ids = Inr media_ids"
| "upload_all env (img # rest) media_ids =
     (case upload_media env img of
        Inr media_id \<Rightarrow> upload_all env rest (media_ids @ [media_id])
      | Inl TwythonError \<Rightarrow> upload_all env rest media_ids
      | Inl e \<Rightarrow> Inl e)"

text \<open>
  \<^verbatim>\<open>
  def tweet(self, **kwargs):
      square = False if len(self.matching_grafs) == 1 else True
      for graf in self.matching_grafs[:4]:
          self.imgs.append(render_img(graf, square=square))
      ...
      for img in self.imgs[:4]:
          try: ... media_ids.append(res['media_id'])
          except TwythonError: pass
      source = self.outlet + ": " if self.outlet else ''
      status = "{}{} {}".format(source, self.title, self.url)
      if TEST_MODE:
          print('would tweet')
          return '1337'
      response = twitter.update_status(status=status, media_ids=media_ids, **kwargs)
      self.tweeted = True
      return response['id_str']
  \<close>
  The argument \<open>reply\<close> is \<^verbatim>\<open>in_reply_to_status_id\<close>, absent in a plain call.
\<close>

definition tweet ::
  "'img env \<Rightarrow> int option \<Rightarrow> 'img article \<Rightarrow> (error + int) \<times> 'img article" where
  "tweet env reply a =
     (let square = (if length (matching_grafs a) = 1 then False else True);
          a1 = a\<lparr>imgs := imgs a @
                  map (\<lambda>graf. render_img env graf square) (take 4 (matching_grafs a))\<rparr>
      in case upload_all env (take 4 (imgs a1)) [] of
           Inl e \<Rightarrow> (Inl e, a1)
         | Inr media_ids \<Rightarrow>
             let source = (if outlet a1 \<noteq> [] then outlet a1 @ ustr '': '' else []);
                 status = source @ title a1 @ ustr '' '' @ url a1
             in if test_mode env then (Inr 1337, a1)
                else (case update_status env status media_ids reply of
                        Inl e \<Rightarrow> (Inl e, a1)
                      | Inr id_str \<Rightarrow> (Inr id_str, a1\<lparr>tweeted := True\<rparr>)))"

section \<open>Dedup Store\<close>

text \<open>
  A row of the table \<^verbatim>\<open>articles\<close> (the autoincremented \<^verbatim>\<open>id\<close> is the position in the
  list). \<open>row_recorded_at\<close> is the UTC time of \<^verbatim>\<open>datetime.utcnow()\<close> in seconds since
  the epoch; \<open>row_tweet_id\<close> is \<open>None\<close> for SQL NULL.
\<close>

record row =
  row_title :: ustring
  row_outlet :: ustring
  row_url :: ustring
  row_tweeted :: bool
  row_recorded_at :: int
  row_tweet_id :: "int option"

record database =
  rows :: "row list"
  idx_articles_url :: bool

text \<open>
  \<^verbatim>\<open>CREATE UNIQUE INDEX idx_articles_url ON articles(url);\<close> fails when the index exists
  already and when two rows share a URL.
\<close>

definition create_unique_index :: "database \<Rightarrow> error + database" where
  "create_unique_index d =
     (if idx_articles_url d then Inl IntegrityError
      else if \<not> distinct (map row_url (rows d)) then Inl IntegrityError
      else Inr (d\<lparr>idx_articles_url := True\<rparr>))"

text \<open>
  \<^verbatim>\<open>setup_db\<close>: the table is created when the file is missing (\<open>None\<close>); the migration
  that creates the index runs on every start, and its failure is printed and ignored.
\<close>

definition setup_db :: "database option \<Rightarrow> database" where
  "setup_db file =
     (let d = (case file of
                 None \<Rightarrow> \<lparr>rows = [], idx_articles_url = False\<rparr>
               | Some d0 \<Rightarrow> d0)
      in case create_unique_index d of
           Inl e \<Rightarrow> d
         | Inr d' \<Rightarrow> d')"

text \<open>\<^verbatim>\<open>insert into articles(...) values (...)\<close>, under the unique index when it exists.\<close>

definition insert_article :: "database \<Rightarrow> row \<Rightarrow> error + database" where
  "insert_article d r =
     (if idx_articles_url d \<and> row_url r \<in> set (map row_url (rows d))
      then Inl IntegrityError
      else Inr (d\<lparr>rows := rows d @ [r]\<rparr>))"

text \<open>\<^verbatim>\<open>select * from articles where url = ?\<close>\<close>

definition article_exists :: "database \<Rightarrow> ustring \<Rightarrow> row list" where
  "article_exists d u = filter (\<lambda>r. row_url r = u) (rows d)"

text \<open>
  \<^verbatim>\<open>date('now','-2 day')\<close> is the text \<^verbatim>\<open>YYYY-MM-DD\<close> of the UTC day two days before today;
  \<^verbatim>\<open>recorded_at\<close> is stored as the text \<^verbatim>\<open>YYYY-MM-DD HH:MM:SS.ffffff\<close>. The comparison
  \<^verbatim>\<open>recorded_at >= date('now','-2 day')\<close> is a comparison of texts, true exactly when the day
  of \<^verbatim>\<open>recorded_at\<close> is that day or a later one. \<open>sql_date\<close> is the day number of a time.
\<close>

definition sql_date :: "int \<Rightarrow> int" where
  "sql_date t = t div 86400"

text \<open>
  \<^verbatim>\<open>select tweet_id from articles where title = ? and recorded_at >= date('now','-2 day')\<close>,
  the rows in the order of the table.
\<close>

definition same_title_query :: "database \<Rightarrow> ustring \<Rightarrow> int \<Rightarrow> int option list" where
  "same_title_query d t now =
     map row_tweet_id
       (filter (\<lambda>r. row_title r = t \<and> sql_date (row_recorded_at r) \<ge> sql_date now - 2)
          (rows d))"

section \<open>Pipeline Orchestrator\<close>

text \<open>
  The state of a pass: the database, the clock (UTC seconds; \<^verbatim>\<open>time.sleep(1)\<close> adds one
  second and nothing else takes time) and a log of what the pass did, kept for the
  statements about it: \<open>Fetch u\<close> when \<^verbatim>\<open>check_for_matches\<close> is called on the article of
  URL \<open>u\<close>, \<open>Trouble u\<close> when its exception is caught and the message printed, and
  \<open>Notify u r\<close> when \<^verbatim>\<open>tweet\<close> is called on it with the reply target \<open>r\<close>.
\<close>

datatype event = Fetch ustring | Trouble ustring | Notify ustring "int option"

record world =
  db :: database
  clock :: int
  trace :: "event list"

text \<open>
  \<^verbatim>\<open>
  if len(same_title) != 0:
      tweet_id = same_title[-1]
      if isinstance(tweet_id, list) or isinstance(tweet_id, tuple):
          tweet_id = tweet_id[0]
      just_tweeted_id = article.tweet(in_reply_to_status_id=int(tweet_id))
  else:
      just_tweeted_id = article.tweet()
  \<close>
  \<^verbatim>\<open>int(None)\<close> raises \<^verbatim>\<open>TypeError\<close>.
\<close>

definition reply_target :: "int option list \<Rightarrow> error + int option" where
  "reply_target same_title =
     (if same_title \<noteq> [] then
        (case last same_title of
           None \<Rightarrow> Inl TypeError
         | Some tweet_id \<Rightarrow> Inr (Some tweet_id))
      else Inr None)"

text \<open>
  The insert at the end of the loop body:
  \<^verbatim>\<open>
  try:
      conn.execute("""insert into articles(...) values (?, ?, ?, ?, ?, ?)""",
                  (article.title, article.outlet, article.url,
                  article.tweeted, datetime.utcnow(), just_tweeted_id))
      conn.commit()
      time.sleep(1)
  except sqlite3.IntegrityError as e:
      print(e)
      time.sleep(1)
  \<close>
\<close>

definition record_outcome ::
  "world \<Rightarrow> 'img article \<Rightarrow> int option \<Rightarrow> world \<times> error option" where
  "record_outcome w a just_tweeted_id =
     (case insert_article (db w)
             \<lparr>row_title = title a, row_outlet = outlet a, row_url = url a,
              row_tweeted = tweeted a, row_recorded_at = clock w,
              row_tweet_id = just_tweeted_id\<rparr> of
        Inr d \<Rightarrow> (w\<lparr>db := d, clock := clock w + 1\<rparr>, None)
      | Inl IntegrityError \<Rightarrow> (w\<lparr>clock := clock w + 1\<rparr>, None)
      | Inl e \<Rightarrow> (w, Some e))"

text \<open>
  The body of \<^verbatim>\<open>for counter, article in enumerate(deduped, 1)\<close> in \<^verbatim>\<open>main\<close>. The result
  is the new state and the exception that leaves \<^verbatim>\<open>main\<close>, if any.
  \<^verbatim>\<open>
  article_exists = conn.execute('select * from articles where url = ?',
          (article.url,)).fetchall()
  if len(article_exists) != 0:
      continue
  try:
      article.check_for_matches()
  except:
      print('Having trouble with that article. Skipping for now.')
      pass
  just_tweeted_id = None
  if article.matching_grafs:
      same_title = conn.execute("select tweet_id ...", (article.title,)).fetchall()
      ...
  try:
      conn.execute("""insert into articles ...
  \<close>
\<close>

definition process_article ::
  "'img env \<Rightarrow> world \<Rightarrow> 'img article \<Rightarrow> world \<times> error option" where
  "process_article env w a =
     (if length (article_exists (db w) (url a)) \<noteq> 0 then (w, None)
      else
        let w1 = w\<lparr>trace := trace w @ [Fetch (url a)]\<rparr>;
            (raised, a1) = check_for_matches env a;
            w2 = (case raised of
                    None \<Rightarrow> w1
                  | Some e \<Rightarrow> w1\<lparr>trace := trace w1 @ [Trouble (url a1)]\<rparr>)
        in if matching_grafs a1 \<noteq> [] then
             (case reply_target (same_title_query (db w2) (title a1) (clock w2)) of
                Inl e \<Rightarrow> (w2, Some e)
              | Inr reply \<Rightarrow>
                  let w3 = w2\<lparr>trace := trace w2 @ [Notify (url a1) reply]\<rparr> in
                  (case tweet env reply a1 of
                     (Inl e, a2) \<Rightarrow> (w3, Some e)
                   | (Inr just_tweeted_id, a2) \<Rightarrow>
                       record_outcome w3 a2 (Some just_tweeted_id)))
           else record_outcome w2 a1 None)"

fun process_articles ::
  "'img env \<Rightarrow> world \<Rightarrow> 'img article list \<Rightarrow> world \<times> error option" where
  "process_articles env w [] = (w, None)"
| "process_articles env w (a # rest) =
     (case process_article env w a of
        (w', Some e) \<Rightarrow> (w', Some e)
      | (w', None) \<Rightarrow> process_articles env w' rest)"

text \<open>
  \<^verbatim>\<open>
  def parse_feed(outlet, url, delicate, redirects):
      feed = feedparser.parse(url)
      articles = []
      for entry in feed['entries']:
          title = entry['title']
          url = entry['link']
          article = Article(outlet, title, url, delicate, redirects)
          articles.append(article)
      return articles
  \<close>
\<close>

fun make_articles ::
  "'img env \<Rightarrow> ustring \<Rightarrow> bool \<Rightarrow> bool \<Rightarrow> (ustring \<times> ustring) list \<Rightarrow>
   'img article list \<Rightarrow> error + 'img article list" where
  "make_articles env outlet' delicate' redirects' [] articles = Inr articles"
| "make_articles env outlet' delicate' redirects' ((title', link) # entries) articles =
     (case Article env outlet' title' link delicate' redirects' of
        Inl e \<Rightarrow> Inl e
      | Inr article \<Rightarrow>
          make_articles env outlet' delicate' redirects' entries (articles @ [article]))"

definition parse_feed ::
  "'img env \<Rightarrow> ustring \<Rightarrow> ustring \<Rightarrow> bool \<Rightarrow> bool \<Rightarrow> error + 'img article list" where
  "parse_feed env outlet' url' delicate' redirects' =
     make_articles env outlet' delicate' redirects' (feed_entries env url') []"

text \<open>
  \<^verbatim>\<open>
  deduped = []
  deduped_urls = Set()
  for article in articles:
      if not article.url in deduped_urls:
          deduped.append(article)
          deduped_urls.add(article.url)
  \<close>
\<close>

fun dedupe ::
  "'img article list \<Rightarrow> 'img article list \<Rightarrow> ustring set \<Rightarrow> 'img article list" where
  "dedupe [] deduped deduped_urls = deduped"
| "dedupe (a # articles) deduped deduped_urls =
     (if url a \<notin> deduped_urls
      then dedupe articles (deduped @ [a]) (insert (url a) deduped_urls)
      else dedupe articles deduped deduped_urls)"

text \<open>
  An entry of \<^verbatim>\<open>rssfeeds.json\<close> with its keys \<^verbatim>\<open>outlet\<close>, \<^verbatim>\<open>url\<close>, \<^verbatim>\<open>delicateURLs\<close> and
  \<^verbatim>\<open>redirectLinks\<close> (an absent flag is false), and the loop \<^verbatim>\<open>for feed in rss_feeds\<close>.
\<close>

record feed =
  feed_outlet :: ustring
  feed_url :: ustring
  delicateURLs :: bool
  redirectLinks :: bool

definition run_feed :: "'img env \<Rightarrow> world \<Rightarrow> feed \<Rightarrow> world \<times> error option" where
  "run_feed env w f =
     (case parse_feed env (feed_outlet f) (feed_url f) (delicateURLs f) (redirectLinks f) of
        Inl e \<Rightarrow> (w, Some e)
      | Inr articles \<Rightarrow> process_articles env w (dedupe articles [] {}))"

fun run_feeds :: "'img env \<Rightarrow> world \<Rightarrow> feed list \<Rightarrow> world \<times> error option" where
  "run_feeds env w [] = (w, None)"
| "run_feeds env w (f # rss_feeds) =
     (case run_feed env w f of
        (w', Some e) \<Rightarrow> (w', Some e)
      | (w', None) \<Rightarrow> run_feeds env w' rss_feeds)"

section \<open>Example values\<close>

text \<open>
  Concrete inputs for the closed theorems: a lower-casing that is right on ASCII, an
  environment whose every fetch returns \<^verbatim>\<open>has an x in it\<close>, and variations of it.
\<close>

definition ascii_lower :: "ustring \<Rightarrow> ustring" where
  "ascii_lower s = map (\<lambda>c. if 65 \<le> c \<and> c \<le> 90 then c + 32 else c) s"

definition env0 :: "(ustring \<times> bool) env" where
  "env0 =
     \<lparr>ua = ustr ''ttn-agent / powered by trackthenews'',
      matchwords = [ustr ''x''],
      matchwords_case_sensitive = [],
      blocklist_words = Some [],
      blocklist = None,
      test_mode = False,
      lower = ascii_lower,
      head_location = Inr,
      fetch_plaintext = (\<lambda>u. Inr (ustr ''has an x in it'')),
      render_img = Pair,
      upload_media = (\<lambda>img. Inr 7),
      update_status = (\<lambda>status media_ids reply. Inr 42),
      feed_entries = (\<lambda>u. [(ustr ''X'', ustr ''http://ex.com/a?utm=1'')])\<rparr>"

definition article0 :: "(ustring \<times> bool) article" where
  "article0 =
     \<lparr>outlet = ustr ''Ex'', title = ustr ''X'', url = ustr ''http://ex.com/a'',
      delicate = False, redirects = False, plaintext = None, matching_grafs = [],
      imgs = [], tweeted = False\<rparr>"

definition env_fbi :: "(ustring \<times> bool) env" where
  "env_fbi = env0\<lparr>matchwords := [], matchwords_case_sensitive := generate_matchwords (ustr ''FBI''),
                 fetch_plaintext := (\<lambda>u. Inr (ustr ''Alpha unrelated.'' @ [newline] @ ustr ''The FBI said so.''))\<rparr>"

definition env_blocked :: "(ustring \<times> bool) env" where
  "env_blocked = env0\<lparr>blocklist_words := Some [ustr ''Secret''],
                     fetch_plaintext := (\<lambda>u. Inr (ustr ''has an x in it'' @ [newline] @ ustr ''and a SECRET too''))\<rparr>"

definition article_one :: "(ustring \<times> bool) article" where
  "article_one = article0\<lparr>matching_grafs := [ustr ''has an x in it'']\<rparr>"

definition article_five :: "(ustring \<times> bool) article" where
  "article_five = article0\<lparr>matching_grafs :=
     [ustr ''x1'', ustr ''x2'', ustr ''x3'', ustr ''x4'', ustr ''x5'']\<rparr>"

definition env_redirect :: "(ustring \<times> bool) env" where
  "env_redirect = env0\<lparr>head_location :=
     (\<lambda>u. if u = ustr ''http://t.co/1'' then Inr (ustr ''http://ex.com/a?utm=1'')
          else if u = ustr ''http://ex.com/a'' then Inr (ustr ''http://ex.com/login'')
          else Inr u)\<rparr>"

definition article_short :: "(ustring \<times> bool) article" where
  "article_short = article0\<lparr>url := ustr ''http://t.co/1'', redirects := True\<rparr>"

definition world0 :: world where
  "world0 = \<lparr>db = setup_db None, clock = 1000000, trace = []\<rparr>"

definition row0 :: row where
  "row0 = \<lparr>row_title = ustr ''X'', row_outlet = ustr ''Ex'', row_url = ustr ''http://ex.com/a'',
           row_tweeted = False, row_recorded_at = 1000000, row_tweet_id = None\<rparr>"

definition env_down :: "(ustring \<times> bool) env" where
  "env_down = env0\<lparr>fetch_plaintext := (\<lambda>u. Inl RequestError)\<rparr>"

definition world1 :: world where
  "world1 = \<lparr>db = \<lparr>rows = [row0], idx_articles_url = True\<rparr>, clock = 1000001,
             trace = [Fetch (ustr ''http://ex.com/a''), Trouble (ustr ''http://ex.com/a'')]\<rparr>"

definition article_same_title :: "(ustring \<times> bool) article" where
  "article_same_title = article0\<lparr>url := ustr ''http://ex.com/b''\<rparr>"

definition world2 :: world where
  "world2 = \<lparr>db = \<lparr>rows = [row0], idx_articles_url = True\<rparr>, clock = 1086400, trace = []\<rparr>"

section \<open>Facts about text\<close>

lemma py_split_nonempty: "py_split sep xs \<noteq> []"
  by (induction xs) (auto split: list.splits)

lemma hd_py_split: "hd (py_split sep xs) = takeWhile (\<lambda>c. c \<noteq> sep) xs"
proof (induction xs)
  case Nil
  show ?case by simp
next
  case (Cons x xs)
  then show ?case
    using py_split_nonempty [of sep xs] by (auto split: list.splits)
qed

lemma py_in_sublist: "py_in sub s = sublist sub s"
  by (induction s) (auto simp: sublist_Cons_right)

lemma takeWhile_takeWhile_conj:
  "takeWhile Q (takeWhile P xs) = takeWhile (\<lambda>x. P x \<and> Q x) xs"
  by (induction xs) auto

lemma decruft_url_takeWhile:
  "decruft_url u = takeWhile (\<lambda>c. c \<noteq> question_mark \<and> c \<noteq> hash_sign) u"
  by (simp add: decruft_url_def hd_py_split takeWhile_takeWhile_conj)

section \<open>Facts about the Matchword Compiler\<close>

lemma length_bracketed: "length (bracketed w) = 55"
  by (simp add: bracketed_def prefix_list_def suffix_list_def)

lemma length_generate_matchwords: "length (generate_matchwords w) = 275"
  by (simp add: generate_matchwords_def words_def length_bracketed)

lemma prefix_single: "p \<in> set prefix_list \<Longrightarrow> \<exists>a. p = [a]"
  by (auto simp: prefix_list_def)

lemma suffix_single: "s \<in> set suffix_list \<Longrightarrow> \<exists>b. s = [b]"
  by (auto simp: suffix_list_def)

lemma distinct_prefix_list: "distinct prefix_list"
  by (simp add: prefix_list_def)

lemma distinct_suffix_list: "distinct suffix_list"
  by (simp add: suffix_list_def en_dash_def)

lemma bracket_inj:
  assumes "p \<in> set prefix_list" "p' \<in> set prefix_list" "s \<in> set suffix_list" "s' \<in> set suffix_list"
    and "p @ v @ s = p' @ v' @ s'"
  shows "p = p' \<and> v = v' \<and> s = s'"
proof -
  obtain a where a: "p = [a]" using assms(1) prefix_single by blast
  obtain a' where a': "p' = [a']" using assms(2) prefix_single by blast
  obtain b where b: "s = [b]" using assms(3) suffix_single by blast
  obtain b' where b': "s' = [b']" using assms(4) suffix_single by blast
  from assms(5) show ?thesis unfolding a a' b b' by simp
qed

lemma distinct_bracketed: "distinct (bracketed w)"
proof -
  have "distinct (List.product prefix_list suffix_list)"
    by (rule distinct_product) (rule distinct_prefix_list, rule distinct_suffix_list)
  moreover have "inj_on (\<lambda>c. fst c @ w @ snd c) (set (List.product prefix_list suffix_list))"
  proof (rule inj_onI)
    fix x y
    assume "x \<in> set (List.product prefix_list suffix_list)" "y \<in> set (List.product prefix_list suffix_list)"
      and eq: "fst x @ w @ snd x = fst y @ w @ snd y"
    then have "fst x \<in> set prefix_list" "fst y \<in> set prefix_list"
      "snd x \<in> set suffix_list" "snd y \<in> set suffix_list"
      by (auto simp only: set_product mem_Times_iff)
    from bracket_inj [OF this eq] show "x = y" by (simp add: prod_eq_iff)
  qed
  ultimately show ?thesis
    unfolding bracketed_def by (simp only: distinct_map simp_thms)
qed

lemma distinct_words: "distinct (words w)"
  by (simp add: words_def)

lemma in_bracketed:
  "x \<in> set (bracketed v) \<longleftrightarrow> (\<exists>p\<in>set prefix_list. \<exists>s\<in>set suffix_list. x = p @ v @ s)"
proof
  assume "x \<in> set (bracketed v)"
  then obtain c where c: "c \<in> set (List.product prefix_list suffix_list)" and x: "x = fst c @ v @ snd c"
    unfolding bracketed_def set_map by blast
  from c have "fst c \<in> set prefix_list" "snd c \<in> set suffix_list"
    unfolding set_product by (simp_all only: mem_Times_iff)
  with x show "\<exists>p\<in>set prefix_list. \<exists>s\<in>set suffix_list. x = p @ v @ s" by blast
next
  assume "\<exists>p\<in>set prefix_list. \<exists>s\<in>set suffix_list. x = p @ v @ s"
  then obtain p s where p: "p \<in> set prefix_list" and s: "s \<in> set suffix_list" and x: "x = p @ v @ s"
    by blast
  from p s have "(p, s) \<in> set (List.product prefix_list suffix_list)"
    unfolding set_product by (simp only: mem_Times_iff fst_conv snd_conv simp_thms)
  then have "(\<lambda>c. fst c @ v @ snd c) (p, s) \<in> set (bracketed v)"
    unfolding bracketed_def set_map by (rule imageI)
  then show "x \<in> set (bracketed v)" unfolding x by (simp only: fst_conv snd_conv)
qed

lemma bracketed_disjoint:
  assumes "v \<noteq> v'"
  shows "set (bracketed v) \<inter> set (bracketed v') = {}"
proof (rule ccontr)
  assume "set (bracketed v) \<inter> set (bracketed v') \<noteq> {}"
  then obtain x where xv: "x \<in> set (bracketed v)" and xv': "x \<in> set (bracketed v')" by blast
  from xv obtain p s where 1: "p \<in> set prefix_list" "s \<in> set suffix_list" and x: "x = p @ v @ s"
    unfolding in_bracketed by blast
  from xv' obtain p' s' where 2: "p' \<in> set prefix_list" "s' \<in> set suffix_list" and x': "x = p' @ v' @ s'"
    unfolding in_bracketed by blast
  from x x' have "p @ v @ s = p' @ v' @ s'" by (rule subst)
  from bracket_inj [OF 1(1) 2(1) 1(2) 2(2) this] have "v = v'" by (rule conjunct1 [OF conjunct2])
  with assms show False by (rule notE)
qed

lemma bracketed_eq: "bracketed x = bracketed y \<Longrightarrow> x = y"
proof (rule ccontr)
  assume eq: "bracketed x = bracketed y" and ne: "x \<noteq> y"
  have "set (bracketed x) \<inter> set (bracketed x) = {}"
    using bracketed_disjoint [OF ne] by (simp only: eq)
  then have "bracketed x = []" by (simp only: Int_absorb set_empty)
  then have "length (bracketed x) = 0" by (simp only: list.size)
  then show False by (simp add: length_bracketed)
qed

lemma distinct_generate_matchwords: "distinct (generate_matchwords w)"
  unfolding generate_matchwords_def
proof (rule distinct_concat)
  have "inj_on bracketed (set (words w))"
    by (rule inj_onI) (rule bracketed_eq)
  then show "distinct (map bracketed (words w))"
    by (simp only: distinct_map distinct_words simp_thms)
next
  fix ys assume "ys \<in> set (map bracketed (words w))"
  then obtain v where "ys = bracketed v" unfolding set_map by blast
  then show "distinct ys" by (simp only: distinct_bracketed)
next
  fix ys zs
  assume "ys \<in> set (map bracketed (words w))" "zs \<in> set (map bracketed (words w))" "ys \<noteq> zs"
  then obtain v v' where "ys = bracketed v" "zs = bracketed v'" "v \<noteq> v'"
    unfolding set_map by blast
  then show "set ys \<inter> set zs = {}" by (simp add: bracketed_disjoint)
qed

lemma set_generate_matchwords: "set (generate_matchwords w) =
   {p @ v @ s | p v s. p \<in> set prefix_list \<and> v \<in> set (words w) \<and> s \<in> set suffix_list}"
  (is "?L = ?R")
proof (rule set_eqI)
  fix x
  have "x \<in> ?L \<longleftrightarrow> (\<exists>v\<in>set (words w). x \<in> set (bracketed v))"
    unfolding generate_matchwords_def by (simp only: set_concat set_map UN_iff bex_simps image_iff)
  also have "\<dots> \<longleftrightarrow> x \<in> ?R"
    unfolding in_bracketed by blast
  finally show "x \<in> ?L \<longleftrightarrow> x \<in> ?R" .
qed

section \<open>Matchword Compiler: the number of surface forms\<close>

text \<open>
  C3, as stated: every root word gives exactly 250 surface forms. The suffix list of
  \<^verbatim>\<open>generate_matchwords\<close> has 11 entries, not 10, so the root \<^verbatim>\<open>FBI\<close> does not give 250.
\<close>

theorem C3_counterexample: "length (generate_matchwords (ustr ''FBI'')) \<noteq> 250"
  by (simp add: length_generate_matchwords)

text \<open>
  C3, amended: for every root word \<^verbatim>\<open>generate_matchwords\<close> returns exactly 275 surface
  forms, all different: each of the 5 variants (the word followed by nothing, \<^verbatim>\<open>e\<close>,
  \<^verbatim>\<open>en\<close>, \<^verbatim>\<open>es\<close>, \<^verbatim>\<open>s\<close>) between each of the 5 prefixes and each of the 11 suffixes.
\<close>

theorem C3_generate_matchwords_275:
  "length (generate_matchwords word) = 275
   \<and> distinct (generate_matchwords word)
   \<and> set (generate_matchwords word) =
       {p @ v @ s | p v s. p \<in> set prefix_list \<and> v \<in> set (words word) \<and> s \<in> set suffix_list}
   \<and> length prefix_list = 5 \<and> length suffix_list = 11 \<and> length (words word) = 5"
proof (intro conjI)
  show "length (generate_matchwords word) = 275" by (rule length_generate_matchwords)
  show "distinct (generate_matchwords word)" by (rule distinct_generate_matchwords)
  show "set (generate_matchwords word) =
       {p @ v @ s | p v s. p \<in> set prefix_list \<and> v \<in> set (words word) \<and> s \<in> set suffix_list}"
    by (rule set_generate_matchwords)
  show "length prefix_list = 5" by (simp add: prefix_list_def)
  show "length suffix_list = 11" by (simp add: suffix_list_def)
  show "length (words word) = 5" by (simp add: words_def)
qed

section \<open>URL cruft removal\<close>

text \<open>
  C10: \<^verbatim>\<open>decruft_url\<close> returns a prefix of its input in which neither \<^verbatim>\<open>?\<close> nor \<^verbatim>\<open>#\<close>
  occurs; an input with neither character is returned unchanged; and what is kept is
  everything before the first \<^verbatim>\<open>?\<close> or \<^verbatim>\<open>#\<close>, whichever comes first.
\<close>

theorem C10_decruft_url_prefix:
  "prefix (decruft_url u) u
   \<and> question_mark \<notin> set (decruft_url u) \<and> hash_sign \<notin> set (decruft_url u)
   \<and> (question_mark \<notin> set u \<and> hash_sign \<notin> set u \<longrightarrow> decruft_url u = u)
   \<and> ((c = question_mark \<or> c = hash_sign) \<and> question_mark \<notin> set pre \<and> hash_sign \<notin> set pre
        \<longrightarrow> decruft_url (pre @ c # rest) = pre)"
proof (intro conjI impI)
  let ?P = "\<lambda>c. c \<noteq> question_mark \<and> c \<noteq> hash_sign"
  have "u = takeWhile ?P u @ dropWhile ?P u" by simp
  then show "prefix (decruft_url u) u"
    unfolding decruft_url_takeWhile by (rule prefixI)
  show "question_mark \<notin> set (decruft_url u)"
    unfolding decruft_url_takeWhile by (auto dest: set_takeWhileD)
  show "hash_sign \<notin> set (decruft_url u)"
    unfolding decruft_url_takeWhile by (auto dest: set_takeWhileD)
next
  assume "question_mark \<notin> set u \<and> hash_sign \<notin> set u"
  then have "\<forall>x\<in>set u. x \<noteq> question_mark \<and> x \<noteq> hash_sign" by blast
  then show "decruft_url u = u"
    unfolding decruft_url_takeWhile by (simp only: takeWhile_eq_all_conv)
next
  assume a: "(c = question_mark \<or> c = hash_sign) \<and> question_mark \<notin> set pre \<and> hash_sign \<notin> set pre"
  then have 1: "\<forall>x\<in>set pre. x \<noteq> question_mark \<and> x \<noteq> hash_sign" by blast
  from a have 2: "\<not> (c \<noteq> question_mark \<and> c \<noteq> hash_sign)" by blast
  show "decruft_url (pre @ c # rest) = pre"
    unfolding decruft_url_takeWhile using 1 2 by (simp add: takeWhile_append2)
qed

text \<open>C10 at three URLs: a query before a fragment, a fragment before a query, neither.\<close>

theorem C10_decruft_url_prefix_witness:
  "decruft_url (ustr ''http://ex.com/a?utm=1#top'') = ustr ''http://ex.com/a''
   \<and> decruft_url (ustr ''http://ex.com/a#top?x'') = ustr ''http://ex.com/a''
   \<and> decruft_url (ustr ''http://ex.com/a'') = ustr ''http://ex.com/a''"
proof -
  have 1: "decruft_url (ustr ''http://ex.com/a'' @ question_mark # ustr ''utm=1#top'') = ustr ''http://ex.com/a''"
    using C10_decruft_url_prefix [of "[]" question_mark "ustr ''http://ex.com/a''" "ustr ''utm=1#top''"]
    by (simp add: question_mark_def hash_sign_def)
  have 2: "decruft_url (ustr ''http://ex.com/a'' @ hash_sign # ustr ''top?x'') = ustr ''http://ex.com/a''"
    using C10_decruft_url_prefix [of "[]" hash_sign "ustr ''http://ex.com/a''" "ustr ''top?x''"]
    by (simp add: question_mark_def hash_sign_def)
  have 3: "decruft_url (ustr ''http://ex.com/a'') = ustr ''http://ex.com/a''"
    using C10_decruft_url_prefix [of "ustr ''http://ex.com/a''" 0 "[]" "[]"]
    by (simp add: question_mark_def hash_sign_def)
  from 1 2 3 show ?thesis by (simp add: question_mark_def hash_sign_def)
qed

section \<open>Match Evaluator: facts and claims\<close>

lemma py_split_pieces: "p \<in> set (py_split sep xs) \<Longrightarrow> sep \<notin> set p"
proof (induction xs arbitrary: p)
  case Nil
  then show ?case by simp
next
  case (Cons x xs)
  then show ?case
    using py_split_nonempty [of sep xs] by (auto split: if_splits list.splits)
qed

lemma py_split_join: "concat (map (\<lambda>p. sep # p) (py_split sep xs)) = sep # xs"
proof (induction xs)
  case Nil
  show ?case by simp
next
  case (Cons x xs)
  then show ?case
    using py_split_nonempty [of sep xs] by (auto split: list.splits)
qed

lemma list_ex_sublist:
  "list_ex (\<lambda>word. py_in (f word) s) ws \<longleftrightarrow> (\<exists>word\<in>set ws. sublist (f word) s)"
  by (simp add: list_ex_iff py_in_sublist)

lemma graf_matches_iff:
  "graf_matches env graf \<longleftrightarrow>
     (\<exists>word\<in>set (matchwords env). sublist (lower env word) (lower env graf)) \<or>
     (\<exists>word\<in>set (matchwords_case_sensitive env). sublist word graf)"
  by (simp add: graf_matches_def list_ex_iff py_in_sublist)

lemma blocked_by_words_iff:
  "blocked_by_words env text \<longleftrightarrow>
     (\<exists>ws. blocklist_words env = Some ws \<and>
           (\<exists>word\<in>set ws. sublist (lower env word) (lower env text)))"
  by (simp add: blocked_by_words_def list_ex_iff py_in_sublist split: option.splits)

text \<open>
  C7: when a configured block word occurs, both lower-cased, anywhere in the plaintext,
  \<^verbatim>\<open>check_for_matches\<close> leaves \<^verbatim>\<open>matching_grafs\<close> empty, whatever matchwords occur.
\<close>

theorem C7_block_word_suppresses:
  assumes "fetch_plaintext env (url a) = Inr text"
    and "blocklist_words env = Some ws"
    and "word \<in> set ws"
    and "sublist (lower env word) (lower env text)"
    and "matching_grafs a = []"
  shows "fst (check_for_matches env a) = None \<and> matching_grafs (snd (check_for_matches env a)) = []"
proof -
  have "blocked_by_words env text"
    unfolding blocked_by_words_iff using assms(2-4) by blast
  then show ?thesis
    using assms(1,5) by (simp add: check_for_matches_def clean_def)
qed

text \<open>
  C8: for a plaintext that is not suppressed (no user agent in it, no block word, no
  verdict of the blocklist module), \<^verbatim>\<open>check_for_matches\<close> returns normally and
  \<^verbatim>\<open>matching_grafs\<close> is the list of the newline-delimited paragraphs, in their order,
  in which some matchword occurs after lower-casing both or some case-sensitive surface
  form occurs as it is; the other paragraphs are left out. The paragraphs are the
  pieces of the text between the newlines.
\<close>

theorem C8_matching_paragraphs:
  assumes "fetch_plaintext env (url a) = Inr text"
    and "\<not> sublist (ua env) text"
    and "\<not> blocked_by_words env text"
    and "blocklist env = None \<or>
         (\<exists>check. blocklist env = Some check \<and> check (a\<lparr>plaintext := Some text\<rparr>) = Inr False)"
    and "matching_grafs a = []"
  shows "fst (check_for_matches env a) = None \<and>
         matching_grafs (snd (check_for_matches env a)) =
           filter (\<lambda>graf.
               (\<exists>word\<in>set (matchwords env). sublist (lower env word) (lower env graf)) \<or>
               (\<exists>word\<in>set (matchwords_case_sensitive env). sublist word graf))
             (py_split newline text) \<and>
         concat (map (\<lambda>graf. newline # graf) (py_split newline text)) = newline # text \<and>
         (\<forall>graf\<in>set (py_split newline text). newline \<notin> set graf)"
proof -
  have f: "filter (graf_matches env) (py_split newline text) =
           filter (\<lambda>graf.
               (\<exists>word\<in>set (matchwords env). sublist (lower env word) (lower env graf)) \<or>
               (\<exists>word\<in>set (matchwords_case_sensitive env). sublist word graf))
             (py_split newline text)"
    by (rule filter_cong [OF refl]) (rule graf_matches_iff)
  have nua: "\<not> py_in (ua env) text" using assms(2) by (simp add: py_in_sublist)
  have main: "fst (check_for_matches env a) = None \<and>
        matching_grafs (snd (check_for_matches env a)) = filter (graf_matches env) (py_split newline text)"
    using assms(1,3,4,5) nua
    by (auto simp add: check_for_matches_def clean_def)
  have pieces: "\<forall>graf\<in>set (py_split newline text). newline \<notin> set graf"
    by (blast dest: py_split_pieces)
  show ?thesis
    using main pieces by (simp only: f py_split_join simp_thms)
qed

text \<open>
  C7 on a text whose first paragraph matches the matchword \<^verbatim>\<open>x\<close> and whose second
  paragraph holds the block word in another case.
\<close>

theorem C7_block_word_suppresses_witness:
  "fst (check_for_matches env_blocked article0) = None \<and>
   matching_grafs (snd (check_for_matches env_blocked article0)) = [] \<and>
   graf_matches env_blocked (ustr ''has an x in it'')"
proof -
  let ?text = "ustr ''has an x in it'' @ [newline] @ ustr ''and a SECRET too''"
  have 1: "fetch_plaintext env_blocked (url article0) = Inr ?text"
    by (simp add: env_blocked_def env0_def)
  have 2: "blocklist_words env_blocked = Some [ustr ''Secret'']"
    by (simp add: env_blocked_def env0_def)
  have 3: "ustr ''Secret'' \<in> set [ustr ''Secret'']" by simp
  have "py_in (lower env_blocked (ustr ''Secret'')) (lower env_blocked ?text)"
    by (simp add: env_blocked_def env0_def ascii_lower_def newline_def)
  then have 4: "sublist (lower env_blocked (ustr ''Secret'')) (lower env_blocked ?text)"
    unfolding py_in_sublist .
  have 5: "matching_grafs article0 = []" by (simp add: article0_def)
  have 6: "graf_matches env_blocked (ustr ''has an x in it'')"
    by (simp add: graf_matches_def env_blocked_def env0_def ascii_lower_def)
  from C7_block_word_suppresses [OF 1 2 3 4 5] 6 show ?thesis by simp
qed

text \<open>C8 on the two paragraphs \<^verbatim>\<open>Alpha unrelated.\<close> and \<^verbatim>\<open>The FBI said so.\<close> with the root \<^verbatim>\<open>FBI\<close>.\<close>

theorem C8_matching_paragraphs_witness:
  "matching_grafs (snd (check_for_matches env_fbi article0)) = [ustr ''The FBI said so.'']"
proof -
  let ?text = "ustr ''Alpha unrelated.'' @ [newline] @ ustr ''The FBI said so.''"
  have 1: "fetch_plaintext env_fbi (url article0) = Inr ?text"
    by (simp add: env_fbi_def env0_def)
  have "\<not> py_in (ua env_fbi) ?text"
    by (simp add: env_fbi_def env0_def newline_def)
  then have 2: "\<not> sublist (ua env_fbi) ?text" by (simp add: py_in_sublist)
  have 3: "\<not> blocked_by_words env_fbi ?text"
    by (simp add: blocked_by_words_def env_fbi_def env0_def)
  have 4: "blocklist env_fbi = None \<or>
         (\<exists>check. blocklist env_fbi = Some check \<and> check (article0\<lparr>plaintext := Some ?text\<rparr>) = Inr False)"
    by (simp add: env_fbi_def env0_def)
  have 5: "matching_grafs article0 = []" by (simp add: article0_def)
  have s: "py_split newline ?text = [ustr ''Alpha unrelated.'', ustr ''The FBI said so.'']"
    by (simp add: newline_def)
  have a: "\<not> graf_matches env_fbi (ustr ''Alpha unrelated.'')"
    by (simp add: graf_matches_def env_fbi_def env0_def generate_matchwords_def words_def
        bracketed_def prefix_list_def suffix_list_def en_dash_def)
  have b: "graf_matches env_fbi (ustr ''The FBI said so.'')"
    by (simp add: graf_matches_def env_fbi_def env0_def generate_matchwords_def words_def
        bracketed_def prefix_list_def suffix_list_def en_dash_def)
  from C8_matching_paragraphs [OF 1 2 3 4 5] show ?thesis
    unfolding s using a b by (simp add: graf_matches_iff)
qed

section \<open>Notification: the images\<close>

lemma imgs_tweet:
  "imgs (snd (tweet env reply a)) =
     imgs a @ map (\<lambda>graf. render_img env graf (length (matching_grafs a) \<noteq> 1))
                (take 4 (matching_grafs a))"
  by (simp add: tweet_def Let_def split: sum.splits)

text \<open>
  C4, as stated: an article with exactly one matching paragraph is rendered square. Its
  single image is rendered with \<^verbatim>\<open>square=False\<close>.
\<close>

theorem C4_counterexample:
  "length (matching_grafs article_one) = 1 \<and>
   imgs (snd (tweet env0 None article_one)) = [render_img env0 (ustr ''has an x in it'') False] \<and>
   render_img env0 (ustr ''has an x in it'') False \<noteq> render_img env0 (ustr ''has an x in it'') True"
  by (simp add: imgs_tweet article_one_def article0_def env0_def)

text \<open>
  C4, amended: a notified article gets at most 4 images, rendered from its first 4
  matching paragraphs in order, each with \<^verbatim>\<open>square=False\<close> when the article has exactly
  one matching paragraph and with \<^verbatim>\<open>square=True\<close> when it has more than one.
\<close>

theorem C4_images_of_tweet:
  assumes "imgs a = []"
  shows "imgs (snd (tweet env reply a)) =
           map (\<lambda>graf. render_img env graf (length (matching_grafs a) \<noteq> 1))
             (take 4 (matching_grafs a))
         \<and> length (imgs (snd (tweet env reply a))) \<le> 4"
  using assms by (simp add: imgs_tweet)

text \<open>C4 on an article with five matching paragraphs: four images, each square.\<close>

theorem C4_images_of_tweet_witness:
  "imgs (snd (tweet env0 None article_five)) =
     [(ustr ''x1'', True), (ustr ''x2'', True), (ustr ''x3'', True), (ustr ''x4'', True)]"
proof -
  have "imgs article_five = []" by (simp add: article_five_def article0_def)
  from C4_images_of_tweet [OF this, of env0 None] show ?thesis
    by (simp add: article_five_def article0_def env0_def)
qed

section \<open>URL Canonicalizer: idempotence\<close>

lemma decruft_url_idem: "decruft_url (decruft_url u) = decruft_url u"
  by (simp add: decruft_url_takeWhile)

text \<open>
  C9, as stated: canonicalizing a canonical URL returns it unchanged, for every URL and
  fixed flags. With \<^verbatim>\<open>redirects\<close> set, the canonical URL is requested again and the
  answer of the server decides: here the short link resolves to \<^verbatim>\<open>http://ex.com/a?utm=1\<close>,
  canonical \<^verbatim>\<open>http://ex.com/a\<close>, which itself resolves to \<^verbatim>\<open>http://ex.com/login\<close>.
\<close>

theorem C9_counterexample:
  "canonicalize_url env_redirect article_short =
     Inr (article_short\<lparr>url := ustr ''http://ex.com/a''\<rparr>) \<and>
   canonicalize_url env_redirect (article_short\<lparr>url := ustr ''http://ex.com/a''\<rparr>) =
     Inr (article_short\<lparr>url := ustr ''http://ex.com/login''\<rparr>) \<and>
   canonicalize_url env_redirect (article_short\<lparr>url := ustr ''http://ex.com/a''\<rparr>) \<noteq>
     canonicalize_url env_redirect article_short"
  by (simp add: canonicalize_url_def env_redirect_def env0_def article_short_def article0_def
      decruft_url_takeWhile question_mark_def hash_sign_def)

text \<open>
  C9, amended: for fixed flags, canonicalizing the result of a canonicalization returns
  it unchanged whenever \<^verbatim>\<open>redirects\<close> is false, and, when \<^verbatim>\<open>redirects\<close> is true, whenever
  the request for the canonical URL resolves to that same URL.
\<close>

theorem C9_canonicalize_idempotent:
  assumes "canonicalize_url env a = Inr a'"
    and "redirects a \<longrightarrow> head_location env (url a') = Inr (url a')"
  shows "canonicalize_url env a' = Inr a'"
proof -
  from assms(1) obtain u where
    u: "(if redirects a then head_location env (url a) else Inr (url a)) = Inr u" and
    a': "a' = a\<lparr>url := (if \<not> delicate a then decruft_url u else u)\<rparr>"
    by (auto simp: canonicalize_url_def split: sum.splits)
  have flags: "redirects a' = redirects a" "delicate a' = delicate a"
    by (simp_all add: a')
  have again: "(if redirects a' then head_location env (url a') else Inr (url a')) = Inr (url a')"
    using assms(2) by (simp add: flags)
  have same: "(if \<not> delicate a' then decruft_url (url a') else url a') = url a'"
    by (simp add: a' decruft_url_idem)
  show ?thesis
    unfolding canonicalize_url_def again by (simp add: same)
qed

text \<open>
  C9 without redirects on a URL with a query, and with redirects where every request
  resolves to the URL it was made for.
\<close>

theorem C9_canonicalize_idempotent_witness:
  "canonicalize_url env0 (article0\<lparr>url := ustr ''http://ex.com/a?utm=1''\<rparr>) = Inr article0 \<and>
   canonicalize_url env0 article0 = Inr article0 \<and>
   canonicalize_url env0 (article_short\<lparr>url := ustr ''http://ex.com/a?utm=1''\<rparr>) =
     Inr (article_short\<lparr>url := ustr ''http://ex.com/a''\<rparr>) \<and>
   canonicalize_url env0 (article_short\<lparr>url := ustr ''http://ex.com/a''\<rparr>) =
     Inr (article_short\<lparr>url := ustr ''http://ex.com/a''\<rparr>)"
proof -
  have 1: "canonicalize_url env0 (article0\<lparr>url := ustr ''http://ex.com/a?utm=1''\<rparr>) = Inr article0"
    by (simp add: canonicalize_url_def env0_def article0_def
        decruft_url_takeWhile question_mark_def hash_sign_def)
  have 2: "redirects (article0\<lparr>url := ustr ''http://ex.com/a?utm=1''\<rparr>) \<longrightarrow>
           head_location env0 (url article0) = Inr (url article0)"
    by (simp add: article0_def)
  have 3: "canonicalize_url env0 (article_short\<lparr>url := ustr ''http://ex.com/a?utm=1''\<rparr>) =
     Inr (article_short\<lparr>url := ustr ''http://ex.com/a''\<rparr>)"
    by (simp add: canonicalize_url_def env0_def article0_def article_short_def
        decruft_url_takeWhile question_mark_def hash_sign_def)
  have 4: "redirects (article_short\<lparr>url := ustr ''http://ex.com/a?utm=1''\<rparr>) \<longrightarrow>
           head_location env0 (url (article_short\<lparr>url := ustr ''http://ex.com/a''\<rparr>)) =
             Inr (url (article_short\<lparr>url := ustr ''http://ex.com/a''\<rparr>))"
    by (simp add: env0_def)
  from 1 3 C9_canonicalize_idempotent [OF 1 2] C9_canonicalize_idempotent [OF 3 4]
  show ?thesis by simp
qed

section \<open>Dedup Store: facts\<close>

lemma setup_db_new: "setup_db None = \<lparr>rows = [], idx_articles_url = True\<rparr>"
  by (simp add: setup_db_def create_unique_index_def)

lemma setup_db_index:
  "distinct (map row_url (rows d)) \<Longrightarrow> idx_articles_url (setup_db (Some d))"
  by (simp add: setup_db_def create_unique_index_def)

lemma setup_db_rows: "rows (setup_db (Some d)) = rows d"
  by (simp add: setup_db_def create_unique_index_def)

lemma insert_article_distinct:
  assumes "idx_articles_url d" and "distinct (map row_url (rows d))"
    and "insert_article d r = Inr d'"
  shows "idx_articles_url d' \<and> distinct (map row_url (rows d'))"
  using assms by (auto simp: insert_article_def split: if_splits)

lemma length_filter_distinct_key:
  "distinct (map f xs) \<Longrightarrow> k \<in> set (map f xs) \<Longrightarrow> length (filter (\<lambda>r. f r = k) xs) = 1"
proof (induction xs)
  case Nil
  then show ?case by simp
next
  case (Cons x xs)
  show ?case
  proof (cases "f x = k")
    case True
    from Cons.prems(1) have "f x \<notin> f ` set xs" by simp
    then have "\<forall>r\<in>set xs. f r \<noteq> f x" by (metis imageI)
    then have "\<forall>r\<in>set xs. f r \<noteq> k" by (simp only: True)
    then have "filter (\<lambda>r. f r = k) xs = []"
      by (simp add: filter_empty_conv)
    with True show ?thesis by simp
  next
    case False
    with Cons show ?thesis by auto
  qed
qed

lemma record_outcome_trace: "trace (fst (record_outcome w a t)) = trace w"
  by (simp add: record_outcome_def insert_article_def)

lemma record_outcome_rows:
  "\<exists>rs. rows (db (fst (record_outcome w a t))) = rows (db w) @ rs"
  by (simp add: record_outcome_def insert_article_def)

lemma record_outcome_no_error: "snd (record_outcome w a t) = None"
  by (simp add: record_outcome_def insert_article_def)


section \<open>Pipeline Orchestrator: facts\<close>

lemma url_check_for_matches: "url (snd (check_for_matches env a)) = url a"
  by (simp add: check_for_matches_def clean_def Let_def
      split: sum.splits option.splits bool.splits)

lemma url_tweet: "url (snd (tweet env reply a)) = url a"
  by (simp add: tweet_def Let_def split: sum.splits)

lemma process_article_seen:
  "article_exists (db w) (url a) \<noteq> [] \<Longrightarrow> process_article env w a = (w, None)"
  by (simp add: process_article_def)

lemma record_outcome_unseen:
  "article_exists (db (fst (record_outcome w a t))) u = [] \<Longrightarrow> article_exists (db w) u = []"
  by (auto simp add: record_outcome_def insert_article_def article_exists_def split: if_splits)

lemma process_article_keeps_seen:
  assumes "article_exists (db w) u \<noteq> []"
  shows "article_exists (db (fst (process_article env w a))) u \<noteq> []"
proof (cases "article_exists (db w) (url a) \<noteq> []")
  case True
  then show ?thesis using assms by (simp add: process_article_seen)
next
  case False
  obtain raised a1 where cm: "check_for_matches env a = (raised, a1)"
    by (cases "check_for_matches env a")
  show ?thesis
    using False assms
    by (auto simp add: process_article_def Let_def cm
        split: option.splits sum.splits prod.splits dest!: record_outcome_unseen)
qed

lemma process_article_trace:
  "\<exists>evs. trace (fst (process_article env w a)) = trace w @ evs \<and>
         set evs \<subseteq> {Fetch (url a), Trouble (url a)} \<union> range (Notify (url a))"
proof -
  obtain raised a1 where cm: "check_for_matches env a = (raised, a1)"
    by (cases "check_for_matches env a")
  have u1: "url a1 = url a"
    using url_check_for_matches [of env a] by (simp add: cm)
  show ?thesis
    by (auto simp add: process_article_def Let_def cm u1 record_outcome_trace
        split: option.splits sum.splits prod.splits)
qed

lemma process_articles_trace:
  assumes "article_exists (db w) u \<noteq> []"
  shows "\<exists>evs. trace (fst (process_articles env w articles)) = trace w @ evs \<and>
               Fetch u \<notin> set evs \<and> (\<forall>r. Notify u r \<notin> set evs)"
  using assms
proof (induction articles arbitrary: w)
  case Nil
  show ?case by simp
next
  case (Cons a articles)
  obtain w' r where step: "process_article env w a = (w', r)"
    by (cases "process_article env w a")
  have "\<exists>evs. trace w' = trace w @ evs \<and> Fetch u \<notin> set evs \<and> (\<forall>r. Notify u r \<notin> set evs)"
  proof (cases "url a = u")
    case True
    with Cons.prems have "process_article env w a = (w, None)"
      by (simp add: process_article_seen)
    with step show ?thesis by simp
  next
    case False
    from process_article_trace [of env w a] step obtain evs where
      "trace w' = trace w @ evs"
      "set evs \<subseteq> {Fetch (url a), Trouble (url a)} \<union> range (Notify (url a))"
      by auto
    with False show ?thesis by (intro exI [of _ evs]) auto
  qed
  then obtain evs1 where 1: "trace w' = trace w @ evs1" "Fetch u \<notin> set evs1"
    "\<forall>r. Notify u r \<notin> set evs1" by blast
  show ?case
  proof (cases r)
    case (Some e)
    with step 1 show ?thesis by simp
  next
    case None
    from process_article_keeps_seen [OF Cons.prems, of env a] step
    have "article_exists (db w') u \<noteq> []" by simp
    from Cons.IH [OF this] obtain evs2 where
      2: "trace (fst (process_articles env w' articles)) = trace w' @ evs2"
      "Fetch u \<notin> set evs2" "\<forall>r. Notify u r \<notin> set evs2" by blast
    from step None 1 2 show ?thesis by (intro exI [of _ "evs1 @ evs2"]) simp
  qed
qed

section \<open>Skip-on-seen\<close>

text \<open>
  C6: an article whose URL has a row in the table is skipped by the loop body before
  anything else happens: the state is unchanged and no exception is raised. Through a
  whole run of the loop, whatever the other articles are, the log gains no
  \<open>Fetch\<close> and no \<open>Notify\<close> for that URL.
\<close>

theorem C6_seen_url_is_skipped:
  assumes "article_exists (db w) u \<noteq> []"
  shows "(url a = u \<longrightarrow> process_article env w a = (w, None)) \<and>
         (\<exists>evs. trace (fst (process_articles env w articles)) = trace w @ evs \<and>
                Fetch u \<notin> set evs \<and> (\<forall>r. Notify u r \<notin> set evs))"
  using assms process_articles_trace [OF assms] by (simp add: process_article_seen)

text \<open>
  C6 on a table that holds \<^verbatim>\<open>http://ex.com/a\<close>, for a loop over a new article and the
  article of that URL.
\<close>

theorem C6_seen_url_is_skipped_witness:
  "process_article env0 world1 article0 = (world1, None) \<and>
   (\<exists>evs. trace (fst (process_articles env0 world1 [article_same_title, article0])) =
            trace world1 @ evs \<and>
          Fetch (ustr ''http://ex.com/a'') \<notin> set evs \<and>
          (\<forall>r. Notify (ustr ''http://ex.com/a'') r \<notin> set evs))"
proof -
  have "article_exists (db world1) (ustr ''http://ex.com/a'') \<noteq> []"
    by (simp add: article_exists_def world1_def row0_def)
  from C6_seen_url_is_skipped [OF this, of article0 env0 "[article_same_title, article0]"]
  show ?thesis by (simp add: article0_def)
qed

section \<open>Recording a URL that is already there\<close>

text \<open>
  C5: with the unique index in place, recording an outcome whose URL already has a row
  leaves the table as it is, raises nothing (the \<^verbatim>\<open>IntegrityError\<close> is caught and only the
  one-second pause happens), and the table still holds exactly one row for that URL.
\<close>

theorem C5_duplicate_url_is_noop:
  assumes "idx_articles_url (db w)"
    and "distinct (map row_url (rows (db w)))"
    and "url a \<in> set (map row_url (rows (db w)))"
  shows "record_outcome w a just_tweeted_id = (w\<lparr>clock := clock w + 1\<rparr>, None) \<and>
         length (article_exists (db (fst (record_outcome w a just_tweeted_id))) (url a)) = 1"
proof -
  have 1: "record_outcome w a just_tweeted_id = (w\<lparr>clock := clock w + 1\<rparr>, None)"
    using assms(1,3) by (simp add: record_outcome_def insert_article_def)
  have 2: "length (article_exists (db w) (url a)) = 1"
    unfolding article_exists_def using assms(2,3) by (rule length_filter_distinct_key)
  from 1 2 show ?thesis by simp
qed

text \<open>C5 on a table whose only row is that of \<^verbatim>\<open>http://ex.com/a\<close>.\<close>

theorem C5_duplicate_url_is_noop_witness:
  "record_outcome world1 article0 (Some 42) = (world1\<lparr>clock := 1000002\<rparr>, None) \<and>
   rows (db (fst (record_outcome world1 article0 (Some 42)))) = [row0]"
proof -
  have 1: "idx_articles_url (db world1)" by (simp add: world1_def)
  have 2: "distinct (map row_url (rows (db world1)))" by (simp add: world1_def)
  have 3: "url article0 \<in> set (map row_url (rows (db world1)))"
    by (simp add: world1_def row0_def article0_def)
  from C5_duplicate_url_is_noop [OF 1 2 3, of "Some 42"] show ?thesis
    by (simp add: world1_def)
qed

section \<open>Thread parent\<close>

lemma reply_target_found:
  "same_title \<noteq> [] \<Longrightarrow> last same_title = Some tweet_id \<Longrightarrow>
   reply_target same_title = Inr (Some tweet_id)"
  by (simp add: reply_target_def)

lemma reply_target_standalone: "reply_target [] = Inr None"
  by (simp add: reply_target_def)

lemma reply_target_null:
  "same_title \<noteq> [] \<Longrightarrow> last same_title = None \<Longrightarrow> reply_target same_title = Inl TypeError"
  by (simp add: reply_target_def)

lemma check_for_matches_env0:
  "check_for_matches env0 (article0\<lparr>url := u\<rparr>) =
     (None, article0\<lparr>url := u, plaintext := Some (ustr ''has an x in it''),
                     matching_grafs := [ustr ''has an x in it'']\<rparr>)"
  by (simp add: check_for_matches_def clean_def env0_def article0_def blocked_by_words_def
      graf_matches_def ascii_lower_def newline_def)

text \<open>
  C2 on the code: the table holds one row of the same title, recorded one day before,
  whose \<^verbatim>\<open>tweet_id\<close> is NULL (the row of an article that did not match, or whose fetch
  failed). A new article of that title matches. The query returns that row, \<^verbatim>\<open>int(None)\<close>
  raises \<^verbatim>\<open>TypeError\<close> outside every \<^verbatim>\<open>try\<close>, and the exception leaves \<^verbatim>\<open>main\<close>: no
  notification is issued and no row is written.
\<close>

theorem C2_null_parent_raises:
  "same_title_query (db world2) (title article_same_title) (clock world2) = [None] \<and>
   process_article env0 world2 article_same_title =
     (world2\<lparr>trace := [Fetch (ustr ''http://ex.com/b'')]\<rparr>, Some TypeError)"
proof -
  have q: "same_title_query (db world2) (ustr ''X'') 1086400 = [None]"
    by (simp add: same_title_query_def world2_def row0_def sql_date_def)
  have e: "article_exists (db world2) (ustr ''http://ex.com/b'') = []"
    by (simp add: article_exists_def world2_def row0_def)
  have c: "clock world2 = 1086400" "trace world2 = []" by (simp_all add: world2_def)
  have t: "title article0 = ustr ''X''"
    by (simp add: article0_def)
  have p: "process_article env0 world2 (article0\<lparr>url := ustr ''http://ex.com/b''\<rparr>) =
     (world2\<lparr>trace := [Fetch (ustr ''http://ex.com/b'')]\<rparr>, Some TypeError)"
    unfolding process_article_def check_for_matches_env0
    by (simp add: e [simplified] q [simplified] c reply_target_def article0_def Let_def)
  from q p show ?thesis by (simp add: c t article_same_title_def)
qed

section \<open>An article whose fetch fails\<close>

text \<open>
  C1 on the code: the fetch of an article raises. The exception is caught and the message
  \<^verbatim>\<open>Having trouble with that article. Skipping for now.\<close> printed, but the loop body goes on
  to the insert: a row with \<^verbatim>\<open>tweeted\<close> false and a NULL \<^verbatim>\<open>tweet_id\<close> is written for the URL.
  At the next pass, with the fetch working again, the article is skipped as already seen.
\<close>

theorem C1_failed_fetch_is_recorded:
  "fetch_plaintext env_down (url article0) = Inl RequestError \<and>
   article_exists (db world0) (url article0) = [] \<and>
   process_article env_down world0 article0 = (world1, None) \<and>
   article_exists (db world1) (url article0) = [row0] \<and>
   process_article env0 world1 article0 = (world1, None)"
proof -
  have f: "fetch_plaintext env_down (url article0) = Inl RequestError"
    by (simp add: env_down_def env0_def)
  have c: "check_for_matches env_down article0 = (Some RequestError, article0)"
    by (simp add: check_for_matches_def clean_def f)
  have e0: "article_exists (db world0) (url article0) = []"
    by (simp add: article_exists_def world0_def setup_db_new)
  have p: "process_article env_down world0 article0 = (world1, None)"
    unfolding process_article_def c
    by (simp add: e0)
       (simp add: article0_def world0_def world1_def row0_def setup_db_new record_outcome_def
          insert_article_def)
  have e1: "article_exists (db world1) (url article0) = [row0]"
    by (simp add: article_exists_def world1_def row0_def article0_def)
  have s: "process_article env0 world1 article0 = (world1, None)"
    by (rule process_article_seen) (simp add: e1)
  from f e0 p e1 s show ?thesis by simp
qed

end
